theory Spec2Isabelle
  imports Main "HOL-Library.Word"
begin

unbundle bit_operations_syntax

section \<open>Data model of txt2abs.cpp\<close>

text \<open>
  The C types \<open>u1_t\<close> (unsigned char) and \<open>u4_t\<close> (unsigned int) are 8-bit and
  32-bit machine words: addition, subtraction and shifts wrap around as in C.
\<close>

type_synonym u1_t = "8 word"
type_synonym u4_t = "32 word"

datatype abs_t = ABS_BLK | ABS_HALT

text \<open>
  One constructor for every call of \<open>error(...)\<close> in the source, in source order. The
  formatted text of the message is not modelled, only which call printed it.
\<close>

datatype msg =
    ElseNotInsideIf      \<comment> \<open>"#else not inside #if ..."\<close>
  | EndifWithoutIf       \<comment> \<open>"#endif without corresponding #if"\<close>
  | HashError            \<comment> \<open>the text of a \<open>#error\<close> line\<close>
  | RangeNorg            \<comment> \<open>"range norg=..."\<close>
  | RangeChkCur          \<comment> \<open>"'::' range chk=..."\<close>
  | ConsistencyCur       \<comment> \<open>"consistency check, expecting pc=..."\<close>
  | RangeChkPrev         \<comment> \<open>"':' range chk=..."\<close>
  | ConsistencyPrev      \<comment> \<open>"consistency check, expecting (pc-2)=..."\<close>
  | RangeB               \<comment> \<open>"range b=..."\<close>
  | SyntaxError          \<comment> \<open>"syntax error ..."\<close>
  | RangeW0              \<comment> \<open>"range w0=..."\<close>
  | RangeW1              \<comment> \<open>"range w1=..."\<close>
  | RangeW2              \<comment> \<open>"range w2=..."\<close>
  | OddPc                \<comment> \<open>"odd pc=..."\<close>

text \<open>
  The global variables of the program and the locals of \<open>main\<close> that live across
  loop iterations. \<open>data\<close> is \<open>blk.data[0 .. sp - blk.data)\<close>, so that
  \<open>sp - blk.data\<close> is \<open>length data\<close>. \<open>out\<close> lists the byte sequences handed to
  \<open>fwrite\<close>, one entry per call; \<open>msgs\<close> lists the calls of \<open>error\<close> with the line
  number printed. \<open>ifdefs\<close> is \<open>ifdefs[0 .. n_ifdefs)\<close>.

  The fixed capacities of the C arrays (\<open>NBLK\<close> bytes of block data, \<open>N_IFDEFS\<close>
  symbols, 64 characters of \<open>def_s\<close>) are not modelled: the lists are unbounded, and
  the model describes the program on runs that stay within those capacities. The
  counters \<open>lnum\<close> and \<open>errs\<close> are C \<open>int\<close>s that only count up from 0; they are
  natural numbers here.
\<close>

record state =
  lnum :: nat
  errs :: nat
  rm :: bool
  msgs :: "(nat \<times> msg) list"
  have_blk :: bool
  data :: "u1_t list"
  org :: u4_t
  pc :: u4_t
  out :: "u1_t list list"
  ifdefs :: "string list"
  lvl :: u4_t
  inside_if :: u4_t
  ignore_input :: u4_t

text \<open>
  \<open>error\<close>: print the message with the line number, count it, and remove the output
  file on the first call (\<open>rm\<close> records that the removal has been done).
\<close>

definition error :: "msg \<Rightarrow> state \<Rightarrow> state" where
  "error m s = s\<lparr>msgs := msgs s @ [(lnum s, m)], errs := errs s + 1, rm := True\<rparr>"

subsection \<open>Block emitter\<close>

definition ABS_SIG :: u4_t where "ABS_SIG = 1"
definition HDR_LEN :: nat where "HDR_LEN = 6"
definition CKSUM_LEN :: nat where "CKSUM_LEN = 1"

text \<open>The two bytes stored by the macros \<open>write_le\<close> and \<open>writeHL_le\<close>.\<close>

definition le_lo :: "u4_t \<Rightarrow> u1_t" where
  "le_lo w = ucast (w AND 0xff)"

definition le_hi :: "u4_t \<Rightarrow> u1_t" where
  "le_hi w = ucast (drop_bit 8 w AND 0xff)"

text \<open>The loop \<open>for (i = 0; i < len; i++) cksum += blk.data[i]\<close>.\<close>

fun cksum_loop :: "u4_t \<Rightarrow> u1_t list \<Rightarrow> u4_t" where
  "cksum_loop cksum [] = cksum"
| "cksum_loop cksum (b # bs) = cksum_loop (cksum + ucast b) bs"

text \<open>
  The bytes of one block as \<open>fwrite(&blk, 1, tlen, fwp)\<close> sends them: the six header
  bytes of \<open>blk_t\<close>, the \<open>len\<close> data bytes and the checksum stored at \<open>*sp\<close>.
  \<open>len\<close> is a C \<open>int\<close>; it is at most \<open>NBLK\<close>, so \<open>tlen - CKSUM_LEN\<close> does not
  overflow and is the 32-bit value \<open>of_nat (len + HDR_LEN)\<close>.
\<close>

definition blk_bytes :: "u4_t \<Rightarrow> u1_t list \<Rightarrow> u1_t list" where
  "blk_bytes org' d =
     (let sigL = le_lo ABS_SIG; sigH = le_hi ABS_SIG;
          len = length d;
          tlen = len + HDR_LEN + CKSUM_LEN;
          lenL = le_lo (of_nat (tlen - CKSUM_LEN));
          lenH = le_hi (of_nat (tlen - CKSUM_LEN));
          addrL = le_lo org'; addrH = le_hi org';
          cksum0 = ABS_SIG + ucast lenL + ucast lenH + ucast addrL + ucast addrH;
          cksum1 = cksum_loop cksum0 d;
          cksum = (0x100 - (cksum1 AND 0xff)) AND 0xff
      in [sigL, sigH, lenL, lenH, addrL, addrH] @ d @ [ucast cksum])"

text \<open>
  \<open>write_abs\<close>. A short write only prints "write error"; the model takes every
  \<open>fwrite\<close> to succeed. The \<open>--list\<close> printout is not modelled.
\<close>

definition write_abs :: "abs_t \<Rightarrow> state \<Rightarrow> state" where
  "write_abs type s =
     (if type = ABS_BLK \<and> \<not> have_blk s then s
      else
        let s1 = (if type = ABS_HALT then s\<lparr>org := 1\<rparr> else s)
        in s1\<lparr>out := out s1 @ [blk_bytes (org s1) (data s1)],
               have_blk := False, data := [], org := pc s1\<rparr>)"

subsection \<open>Reading and scanning text\<close>

text \<open>
  The input file is a \<open>string\<close>; it is taken to hold no NUL character, so that the C
  string functions see all of every line. \<open>fgets n f\<close> is \<open>fgets(buf, n + 1, frp)\<close>
  on the unread text \<open>f\<close>: it takes at most \<open>n\<close> characters and stops after a
  newline; the result is the buffer and the text still unread.
\<close>

definition NBUF :: nat where "NBUF = 256"

fun fgets :: "nat \<Rightarrow> string \<Rightarrow> string \<times> string" where
  "fgets n [] = ([], [])"
| "fgets 0 (c # cs) = ([], c # cs)"
| "fgets (Suc n) (c # cs) =
     (if c = CHR 0x0A then ([c], cs)
      else (c # fst (fgets n cs), snd (fgets n cs)))"

lemma fgets_rest_le: "length (snd (fgets n f)) \<le> length f"
  by (induction n f rule: fgets.induct) auto

lemma fgets_rest_less: "0 < n \<Longrightarrow> length (snd (fgets n (c # cs))) < Suc (length cs)"
  using fgets_rest_le [of "n - 1" cs] by (cases n) (simp_all add: less_Suc_eq_le)

text \<open>
  The buffers that the loop \<open>while (fgets(buf, NBUF, frp))\<close> sees, in order: \<open>fgets\<close>
  returns NULL once no text is left.
\<close>

function read_lines :: "string \<Rightarrow> string list" where
  "read_lines [] = []"
| "read_lines (c # cs) =
     fst (fgets (NBUF - 1) (c # cs)) # read_lines (snd (fgets (NBUF - 1) (c # cs)))"
  by pat_completeness auto
termination
  by (relation "measure length") (simp_all add: NBUF_def fgets_rest_less)

text \<open>\<open>isspace\<close> in the C locale.\<close>

definition isspace :: "char \<Rightarrow> bool" where
  "isspace c \<longleftrightarrow>
     c = CHR '' '' \<or> c = CHR 0x09 \<or> c = CHR 0x0A \<or> c = CHR 0x0B \<or> c = CHR 0x0C \<or> c = CHR 0x0D"

text \<open>
  \<open>sscanf\<close>, for the four shapes of format that the program uses. \<open>lit\<close> matches the
  ordinary characters of a format against the input and returns the input left over.
  A blank in a format skips any white space, and so does each conversion before it
  reads, therefore the blank before a conversion needs no function of its own.
\<close>

fun lit :: "string \<Rightarrow> string \<Rightarrow> string option" where
  "lit [] cs = Some cs"
| "lit (f # fs) [] = None"
| "lit (f # fs) (c # cs) = (if f = c then lit fs cs else None)"

text \<open>\<open>%s\<close>: skip white space, then take the characters up to the next white space.\<close>

definition conv_s :: "string \<Rightarrow> string option" where
  "conv_s cs =
     (let t = takeWhile (\<lambda>c. \<not> isspace c) (dropWhile isspace cs)
      in if t = [] then None else Some t)"

definition is_odigit :: "char \<Rightarrow> bool" where
  "is_odigit c \<longleftrightarrow> (48::nat) \<le> of_char c \<and> of_char c \<le> (55::nat)"

definition odigit :: "char \<Rightarrow> u4_t" where
  "odigit c = of_nat (of_char c - 48)"

text \<open>
  \<open>%o\<close> into an \<open>unsigned int\<close>: skip white space, take an optional sign and then
  octal digits, at least one. The value is kept to 32 bits (a numeral that does not fit
  is outside what C defines; the usual libraries store the low 32 bits of values below
  \<open>2 ^ 64\<close>), and a minus sign negates it as \<open>strtoul\<close> does. The result is the value
  and the input after the digits.
\<close>

definition conv_o :: "string \<Rightarrow> (u4_t \<times> string) option" where
  "conv_o cs =
     (let cs1 = dropWhile isspace cs;
          neg = (cs1 \<noteq> [] \<and> hd cs1 = CHR ''-'');
          cs2 = (if cs1 \<noteq> [] \<and> (hd cs1 = CHR ''-'' \<or> hd cs1 = CHR ''+'') then tl cs1 else cs1);
          ds = takeWhile is_odigit cs2;
          v = foldl (\<lambda>a d. 8 * a + odigit d) 0 ds
      in if ds = [] then None
         else Some (if neg then - v else v, dropWhile is_odigit cs2))"

text \<open>\<open>sscanf(bp, "<fmt> %s", def_s) == 1\<close> and the string stored.\<close>

definition sscanf_s :: "string \<Rightarrow> string \<Rightarrow> string option" where
  "sscanf_s fmt bp = (case lit fmt bp of None \<Rightarrow> None | Some r \<Rightarrow> conv_s r)"

text \<open>\<open>sscanf(bp, "<fmt> %o", &v) == 1\<close> and the value stored.\<close>

definition sscanf_o :: "string \<Rightarrow> string \<Rightarrow> u4_t option" where
  "sscanf_o fmt bp =
     (case lit fmt bp of None \<Rightarrow> None
      | Some r \<Rightarrow> (case conv_o r of None \<Rightarrow> None | Some (v, _) \<Rightarrow> Some v))"

text \<open>
  \<open>n = sscanf(bp, "%o %o %o", &w0, &w1, &w2)\<close>: the values stored, so that \<open>n\<close> is
  the length of the list when a conversion succeeded; when none did, \<open>n\<close> is 0 or
  \<open>EOF\<close> and the list is empty.
\<close>

definition sscanf_3o :: "string \<Rightarrow> u4_t list" where
  "sscanf_3o bp =
     (case conv_o bp of None \<Rightarrow> []
      | Some (w0, r0) \<Rightarrow>
          (case conv_o r0 of None \<Rightarrow> [w0]
           | Some (w1, r1) \<Rightarrow>
               (case conv_o r1 of None \<Rightarrow> [w0, w1]
                | Some (w2, _) \<Rightarrow> [w0, w1, w2])))"

subsection \<open>The branches of the main loop\<close>

text \<open>\<open>#else\<close>\<close>

definition do_else :: "state \<Rightarrow> state" where
  "do_else s =
     (if inside_if s AND lvl s = 0 then error ElseNotInsideIf s
      else s\<lparr>ignore_input := ignore_input s XOR lvl s\<rparr>)"

text \<open>\<open>#endif\<close>\<close>

definition do_endif :: "state \<Rightarrow> state" where
  "do_endif s =
     (let s1 = s\<lparr>inside_if := inside_if s AND NOT (lvl s),
                  ignore_input := ignore_input s AND NOT (lvl s),
                  lvl := drop_bit 1 (lvl s)\<rparr>
      in if lvl s1 = 0 then error EndifWithoutIf s1 else s1)"

text \<open>\<open>#if 1\<close> and \<open>#if 0\<close>\<close>

definition do_if1 :: "state \<Rightarrow> state" where
  "do_if1 s =
     (let l = push_bit 1 (lvl s)
      in s\<lparr>lvl := l, inside_if := inside_if s OR l, ignore_input := ignore_input s AND NOT l\<rparr>)"

definition do_if0 :: "state \<Rightarrow> state" where
  "do_if0 s =
     (let l = push_bit 1 (lvl s)
      in s\<lparr>lvl := l, inside_if := inside_if s OR l, ignore_input := ignore_input s OR l\<rparr>)"

text \<open>
  \<open>#ifdef\<close>: the index at which the search loop over \<open>ifdefs\<close> stops, \<open>n_ifdefs\<close>
  when the symbol is not there.
\<close>

fun find_def :: "string \<Rightarrow> string list \<Rightarrow> nat" where
  "find_def def_s [] = 0"
| "find_def def_s (d # ds) = (if def_s = d then 0 else Suc (find_def def_s ds))"

definition do_ifdef :: "string \<Rightarrow> state \<Rightarrow> state" where
  "do_ifdef def_s s =
     (let i = find_def def_s (ifdefs s);
          l = push_bit 1 (lvl s)
      in s\<lparr>lvl := l, inside_if := inside_if s OR l,
            ignore_input := (if i = length (ifdefs s) then ignore_input s OR l
                             else ignore_input s AND NOT l)\<rparr>)"

text \<open>\<open>#define\<close>\<close>

definition do_define :: "string \<Rightarrow> state \<Rightarrow> state" where
  "do_define def_s s = s\<lparr>ifdefs := ifdefs s @ [def_s]\<rparr>"

text \<open>\<open>= norg\<close>; \<open>0177777\<close> is \<open>0xFFFF\<close>.\<close>

definition do_org :: "u4_t \<Rightarrow> state \<Rightarrow> state" where
  "do_org norg s =
     (let s1 = write_abs ABS_BLK s;
          s2 = (if norg > 0xFFFF then error RangeNorg s1 else s1)
      in s2\<lparr>pc := norg, org := norg\<rparr>)"

text \<open>\<open>:: chk\<close>\<close>

definition do_chk_cur :: "u4_t \<Rightarrow> state \<Rightarrow> state" where
  "do_chk_cur chk s =
     (let s1 = (if chk > 0xFFFF then error RangeChkCur s else s);
          s2 = (if pc s1 \<noteq> chk then error ConsistencyCur s1 else s1)
      in write_abs ABS_BLK s2)"

text \<open>
  \<open>: chk\<close>. \<open>pcm2\<close> is an \<open>int\<close> holding \<open>pc - 2\<close>; the comparison with the unsigned
  \<open>chk\<close> converts it back, so it compares the 32-bit value \<open>pc - 2\<close>.
\<close>

definition do_chk_prev :: "u4_t \<Rightarrow> state \<Rightarrow> state" where
  "do_chk_prev chk s =
     (let s1 = (if chk > 0xFFFF then error RangeChkPrev s else s);
          pcm2 = pc s1 - 2;
          s2 = (if pcm2 \<noteq> chk then error ConsistencyPrev s1 else s1)
      in write_abs ABS_BLK s2)"

text \<open>\<open>b nnn\<close>; \<open>0377\<close> is \<open>0xFF\<close>, and \<open>*sp++ = b\<close> keeps the low byte of \<open>b\<close>.\<close>

definition do_byte :: "u4_t \<Rightarrow> state \<Rightarrow> state" where
  "do_byte b s =
     (let s1 = (if b > 0xFF then error RangeB s else s)
      in s1\<lparr>data := data s1 @ [ucast b], pc := pc s1 + 1, have_blk := True\<rparr>)"

text \<open>\<open>write_le(sp, w); pc += 2;\<close>\<close>

definition write_le :: "u4_t \<Rightarrow> state \<Rightarrow> state" where
  "write_le w s = s\<lparr>data := data s @ [le_lo w, le_hi w], pc := pc s + 2\<rparr>"

text \<open>
  The data-word branch; \<open>ws\<close> holds the values that \<open>sscanf\<close> stored and \<open>n\<close> is
  their number. \<open>w1\<close> and \<open>w2\<close> are read only behind \<open>n >= 2\<close> and \<open>n >= 3\<close>.
\<close>

definition do_words :: "u4_t list \<Rightarrow> state \<Rightarrow> state" where
  "do_words ws s =
     (let n = length ws
      in if n \<noteq> 1 \<and> n \<noteq> 2 \<and> n \<noteq> 3 then error SyntaxError s
         else
           let s1 = (if ws ! 0 > 0xFFFF then error RangeW0 s else s);
               s2 = (if n \<ge> 2 \<and> ws ! 1 > 0xFFFF then error RangeW1 s1 else s1);
               s3 = (if n \<ge> 3 \<and> ws ! 2 > 0xFFFF then error RangeW2 s2 else s2);
               s4 = (if pc s3 AND 1 \<noteq> 0 then error OddPc s3 else s3);
               s5 = write_le (ws ! 0) s4;
               s6 = (if n \<ge> 2 then write_le (ws ! 1) s5 else s5);
               s7 = (if n \<ge> 3 then write_le (ws ! 2) s6 else s6)
           in s7\<lparr>have_blk := True\<rparr>)"

subsection \<open>The main loop\<close>

text \<open>
  One iteration of \<open>while (fgets(buf, NBUF, frp))\<close> on the buffer \<open>buf\<close>. The tests
  are those of the source, in its order; \<open>strcmp(bp, t) == 0\<close> is \<open>bp = t\<close> and
  \<open>strncmp(bp, t, n) == 0\<close> is \<open>take n bp = t\<close> for a \<open>t\<close> of \<open>n\<close> characters.
  \<open>#warning\<close> only prints a note.
\<close>

definition do_line :: "string \<Rightarrow> state \<Rightarrow> state" where
  "do_line buf s0 =
     (let s = s0\<lparr>lnum := lnum s0 + 1\<rparr>;
          bp = dropWhile isspace (butlast buf)
      in if bp = [] \<or> take 2 bp = ''//'' then s
         else if bp = ''#else'' then do_else s
         else if bp = ''#endif'' then do_endif s
         else if bp = ''#if 1'' then do_if1 s
         else if bp = ''#if 0'' then do_if0 s
         else
           (case sscanf_s ''#ifdef'' bp of
              Some def_s \<Rightarrow> do_ifdef def_s s
            | None \<Rightarrow>
                if ignore_input s \<noteq> 0 then s
                else
                  (case sscanf_s ''#define'' bp of
                     Some def_s \<Rightarrow> do_define def_s s
                   | None \<Rightarrow>
                       if take 6 bp = ''#error'' then error HashError s
                       else if take 8 bp = ''#warning'' then s
                       else
                         (case sscanf_o ''='' bp of
                            Some norg \<Rightarrow> do_org norg s
                          | None \<Rightarrow>
                              (case sscanf_o ''::'' bp of
                                 Some chk \<Rightarrow> do_chk_cur chk s
                               | None \<Rightarrow>
                                   (case sscanf_o '':'' bp of
                                      Some chk \<Rightarrow> do_chk_prev chk s
                                    | None \<Rightarrow>
                                        (case sscanf_o ''b'' bp of
                                           Some b \<Rightarrow> do_byte b s
                                         | None \<Rightarrow> do_words (sscanf_3o bp) s)))))))"

text \<open>
  The state at the start of the loop: the globals are zero, \<open>ifdefs\<close> holds the
  \<open>--def\<close> arguments, and \<open>lvl = 1\<close>.
\<close>

definition init :: "string list \<Rightarrow> state" where
  "init defs =
     \<lparr>lnum = 0, errs = 0, rm = False, msgs = [], have_blk = False, data = [],
      org = 0, pc = 0, out = [], ifdefs = defs, lvl = 1, inside_if = 0, ignore_input = 0\<rparr>"

definition main_loop :: "string list \<Rightarrow> state \<Rightarrow> state" where
  "main_loop bufs s = foldl (\<lambda>s buf. do_line buf s) s bufs"

text \<open>
  \<open>main\<close> from the first \<open>fgets\<close> on, for the \<open>--def\<close> symbols \<open>defs\<close> and the
  input text \<open>txt\<close>: the loop, then \<open>write_abs(ABS_BLK); write_abs(ABS_HALT);\<close>.
\<close>

definition main :: "string list \<Rightarrow> string \<Rightarrow> state" where
  "main defs txt = write_abs ABS_HALT (write_abs ABS_BLK (main_loop (read_lines txt) (init defs)))"

subsection \<open>Notions used in the statements\<close>

text \<open>The number that a little-endian 16-bit field holds, low byte first.\<close>

definition le16 :: "u1_t \<Rightarrow> u1_t \<Rightarrow> nat" where
  "le16 lo hi = unat lo + 256 * unat hi"

text \<open>
  The pending-block invariant: \<open>have_blk\<close> says whether the accumulator holds a byte,
  and with an empty accumulator the origin of the next block is \<open>pc\<close>.
\<close>

definition blk_inv :: "state \<Rightarrow> bool" where
  "blk_inv s \<longleftrightarrow> (have_blk s \<longleftrightarrow> data s \<noteq> []) \<and> (data s = [] \<longrightarrow> org s = pc s)"

text \<open>Every block of the list carries at least one data byte.\<close>

definition data_blocks :: "u1_t list list \<Rightarrow> bool" where
  "data_blocks bs \<longleftrightarrow> (\<forall>b \<in> set bs. \<exists>og d. d \<noteq> [] \<and> b = blk_bytes og d)"

section \<open>Bytes and checksums\<close>

lemma and_ff_take: "(w::u4_t) AND 0xff = take_bit 8 w"
  by (simp add: take_bit_eq_mask mask_eq_exp_minus_1)

lemma and_ff: "unat ((w::u4_t) AND 0xff) = unat w mod 256"
  by (simp add: and_ff_take unsigned_take_bit_eq take_bit_eq_mod unat_mod_distrib)

lemma unat_le_lo: "unat (le_lo w) = unat w mod 256"
  unfolding le_lo_def
  by (simp add: unsigned_ucast_eq and_ff take_bit_eq_mod)

lemma unat_le_hi: "unat (le_hi w) = (unat w div 256) mod 256"
  unfolding le_hi_def
  by (simp add: unsigned_ucast_eq and_ff unat_drop_bit_eq drop_bit_eq_div take_bit_eq_mod
      unat_div_distrib)

lemma le16_le: "le16 (le_lo w) (le_hi w) = unat w mod 65536"
proof -
  have "(n::nat) mod 256 + 256 * (n div 256 mod 256) = n mod 65536" for n
    using mod_mult2_eq [of n 256 256] by simp
  then show ?thesis by (simp add: le16_def unat_le_lo unat_le_hi)
qed

lemma unat_ucast_u1: "unat (ucast (b::u1_t) :: u4_t) = unat b"
proof -
  have "unat b < 2 ^ 8" using unsigned_less [of b] by simp
  then have "unat b < 2 ^ 32" by simp
  then show ?thesis by (simp add: unsigned_ucast_eq take_bit_nat_eq_self)
qed

lemma unat_add_byte: "unat ((c::u4_t) + ucast (b::u1_t)) mod 256 = (unat c + unat b) mod 256"
proof -
  have "unat (c + ucast b) = (unat c + unat b) mod 2 ^ 32"
    by (simp add: unat_word_ariths unat_ucast_u1)
  moreover have "(256::nat) dvd 2 ^ 32" by simp
  ultimately show ?thesis by (simp add: mod_mod_cancel)
qed

lemma unat_cksum_loop:
  "unat (cksum_loop c d) mod 256 = (unat c + sum_list (map unat d)) mod 256"
proof (induction d arbitrary: c)
  case Nil
  show ?case by simp
next
  case (Cons b bs)
  have "unat (cksum_loop (c + ucast b) bs) mod 256
        = (unat (c + ucast b) mod 256 + sum_list (map unat bs)) mod 256"
    by (simp add: Cons.IH mod_add_left_eq)
  also have "\<dots> = ((unat c + unat b) mod 256 + sum_list (map unat bs)) mod 256"
    by (simp only: unat_add_byte)
  also have "\<dots> = (unat c + sum_list (map unat (b # bs))) mod 256"
    by (simp add: mod_add_left_eq add.assoc)
  finally show ?case by simp
qed

lemma unat_cksum_byte:
  "unat (ucast (((0x100::u4_t) - (c AND 0xff)) AND 0xff) :: u1_t) = (256 - unat c mod 256) mod 256"
proof -
  let ?y = "c AND 0xff"
  have y: "unat ?y = unat c mod 256" by (rule and_ff)
  then have "unat ?y < 256" by simp
  then have "?y \<le> 0x100" by (simp add: word_le_nat_alt)
  then have "unat (0x100 - ?y) = 256 - unat ?y" by (simp add: unat_sub)
  then show ?thesis
    by (simp add: unsigned_ucast_eq and_ff take_bit_eq_mod)
qed

lemma cksum_cancel: "(r::nat) < 256 \<Longrightarrow> (r + (256 - r) mod 256) mod 256 = 0"
  by (cases "r = 0") simp_all

lemma blk_bytes_shape:
  "blk_bytes og d = [1, 0, le_lo (of_nat (length d + 6)), le_hi (of_nat (length d + 6)),
                     le_lo og, le_hi og] @ d @ [last (blk_bytes og d)]"
  by (simp add: blk_bytes_def Let_def ABS_SIG_def HDR_LEN_def CKSUM_LEN_def le_lo_def le_hi_def
      add.commute)

lemma length_blk_bytes: "length (blk_bytes og d) = length d + 7"
  by (simp add: blk_bytes_def Let_def)

lemma halt_bytes: "blk_bytes 1 [] = [1, 0, 6, 0, 1, 0, 0xF8]"
  by (simp add: blk_bytes_def Let_def le_lo_def le_hi_def ABS_SIG_def HDR_LEN_def CKSUM_LEN_def)

lemma blk_bytes_sum: "sum_list (map unat (blk_bytes og d)) mod 256 = 0"
proof -
  define lenL where "lenL = le_lo (of_nat (length d + 6))"
  define lenH where "lenH = le_hi (of_nat (length d + 6))"
  define c0 :: u4_t
    where "c0 = 1 + ucast lenL + ucast lenH + ucast (le_lo og) + ucast (le_hi og)"
  define t
    where "t = 1 + unat lenL + unat lenH + unat (le_lo og) + unat (le_hi og)
                 + sum_list (map unat d)"
  have c0: "unat c0 mod 256
            = (1 + unat lenL + unat lenH + unat (le_lo og) + unat (le_hi og)) mod 256"
  proof -
    have "unat c0 mod 256
          = (unat (1 + ucast lenL + ucast lenH + ucast (le_lo og) :: u4_t)
             + unat (le_hi og)) mod 256"
      unfolding c0_def by (rule unat_add_byte)
    also have "\<dots> = (unat (1 + ucast lenL + ucast lenH + ucast (le_lo og) :: u4_t) mod 256
                      + unat (le_hi og)) mod 256"
      by (simp add: mod_add_left_eq)
    also have "\<dots> = ((unat (1 + ucast lenL + ucast lenH :: u4_t) + unat (le_lo og)) mod 256
                      + unat (le_hi og)) mod 256"
      by (simp only: unat_add_byte)
    also have "\<dots> = ((unat (1 + ucast lenL + ucast lenH :: u4_t) mod 256
                       + unat (le_lo og)) mod 256 + unat (le_hi og)) mod 256"
      by (simp add: mod_add_left_eq)
    also have "\<dots> = (((unat (1 + ucast lenL :: u4_t) + unat lenH) mod 256
                       + unat (le_lo og)) mod 256 + unat (le_hi og)) mod 256"
      by (simp only: unat_add_byte)
    also have "\<dots> = (((unat (1 + ucast lenL :: u4_t) mod 256 + unat lenH) mod 256
                       + unat (le_lo og)) mod 256 + unat (le_hi og)) mod 256"
      by (simp add: mod_add_left_eq)
    also have "\<dots> = ((((unat (1::u4_t) + unat lenL) mod 256 + unat lenH) mod 256
                       + unat (le_lo og)) mod 256 + unat (le_hi og)) mod 256"
      by (simp only: unat_add_byte)
    also have "\<dots> = (1 + unat lenL + unat lenH + unat (le_lo og) + unat (le_hi og)) mod 256"
      by (simp add: mod_add_left_eq)
    finally show ?thesis .
  qed
  have "blk_bytes og d = [1, 0, lenL, lenH, le_lo og, le_hi og] @ d
          @ [ucast ((0x100 - (cksum_loop c0 d AND 0xff)) AND 0xff)]"
    by (simp add: blk_bytes_def Let_def ABS_SIG_def HDR_LEN_def CKSUM_LEN_def lenL_def lenH_def
        c0_def le_lo_def le_hi_def add.commute)
  then have "sum_list (map unat (blk_bytes og d))
             = t + (256 - unat (cksum_loop c0 d) mod 256) mod 256"
    by (simp add: unat_cksum_byte t_def)
  moreover have "unat (cksum_loop c0 d) mod 256 = t mod 256"
  proof -
    have "unat (cksum_loop c0 d) mod 256 = (unat c0 mod 256 + sum_list (map unat d)) mod 256"
      by (simp add: unat_cksum_loop mod_add_left_eq)
    also have "\<dots> = t mod 256"
      by (simp only: c0 t_def mod_add_left_eq)
    finally show ?thesis .
  qed
  ultimately have "sum_list (map unat (blk_bytes og d)) = t + (256 - t mod 256) mod 256"
    by simp
  moreover have "(t + (256 - t mod 256) mod 256) mod 256 = 0"
  proof -
    have "(t + (256 - t mod 256) mod 256) mod 256
          = (t mod 256 + (256 - t mod 256) mod 256) mod 256"
      by (simp add: mod_add_left_eq)
    also have "\<dots> = 0"
      by (rule cksum_cancel) simp
    finally show ?thesis .
  qed
  ultimately show ?thesis by simp
qed

lemma len_field: "le16 (le_lo (of_nat n)) (le_hi (of_nat n)) = n mod 65536"
proof -
  have "unat (of_nat n :: u4_t) = n mod 2 ^ 32" by (simp add: unat_of_nat)
  moreover have "(65536::nat) dvd 2 ^ 32" by simp
  ultimately show ?thesis by (simp add: le16_le mod_mod_cancel)
qed

section \<open>The pending block\<close>

lemma do_line_cases:
  assumes "P (s\<lparr>lnum := lnum s + 1\<rparr>)"
    and "P (do_else (s\<lparr>lnum := lnum s + 1\<rparr>))"
    and "P (do_endif (s\<lparr>lnum := lnum s + 1\<rparr>))"
    and "P (do_if1 (s\<lparr>lnum := lnum s + 1\<rparr>))"
    and "P (do_if0 (s\<lparr>lnum := lnum s + 1\<rparr>))"
    and "\<And>d. P (do_ifdef d (s\<lparr>lnum := lnum s + 1\<rparr>))"
    and "\<And>d. ignore_input s = 0 \<Longrightarrow> P (do_define d (s\<lparr>lnum := lnum s + 1\<rparr>))"
    and "ignore_input s = 0 \<Longrightarrow> P (error HashError (s\<lparr>lnum := lnum s + 1\<rparr>))"
    and "\<And>v. ignore_input s = 0 \<Longrightarrow> P (do_org v (s\<lparr>lnum := lnum s + 1\<rparr>))"
    and "\<And>v. ignore_input s = 0 \<Longrightarrow> P (do_chk_cur v (s\<lparr>lnum := lnum s + 1\<rparr>))"
    and "\<And>v. ignore_input s = 0 \<Longrightarrow> P (do_chk_prev v (s\<lparr>lnum := lnum s + 1\<rparr>))"
    and "\<And>v. ignore_input s = 0 \<Longrightarrow> P (do_byte v (s\<lparr>lnum := lnum s + 1\<rparr>))"
    and "\<And>ws. ignore_input s = 0 \<Longrightarrow> P (do_words ws (s\<lparr>lnum := lnum s + 1\<rparr>))"
  shows "P (do_line buf s)"
  unfolding do_line_def Let_def
  using assms by (simp split: option.split)

lemma blk_inv_lnum: "blk_inv (s\<lparr>lnum := n\<rparr>) = blk_inv s"
  by (simp add: blk_inv_def)

lemma blk_inv_error: "blk_inv (error m s) = blk_inv s"
  by (simp add: blk_inv_def error_def)

lemma blk_inv_write_abs: "blk_inv s \<Longrightarrow> blk_inv (write_abs t s)"
  by (simp add: blk_inv_def write_abs_def Let_def)

lemma blk_inv_do_else: "blk_inv s \<Longrightarrow> blk_inv (do_else s)"
  by (simp add: blk_inv_def do_else_def error_def)

lemma blk_inv_do_endif: "blk_inv s \<Longrightarrow> blk_inv (do_endif s)"
  by (simp add: blk_inv_def do_endif_def error_def Let_def)

lemma blk_inv_do_if1: "blk_inv s \<Longrightarrow> blk_inv (do_if1 s)"
  by (simp add: blk_inv_def do_if1_def Let_def)

lemma blk_inv_do_if0: "blk_inv s \<Longrightarrow> blk_inv (do_if0 s)"
  by (simp add: blk_inv_def do_if0_def Let_def)

lemma blk_inv_do_ifdef: "blk_inv s \<Longrightarrow> blk_inv (do_ifdef d s)"
  by (simp add: blk_inv_def do_ifdef_def Let_def)

lemma blk_inv_do_define: "blk_inv s \<Longrightarrow> blk_inv (do_define d s)"
  by (simp add: blk_inv_def do_define_def)

lemma blk_inv_do_org: "blk_inv s \<Longrightarrow> blk_inv (do_org v s)"
  by (simp add: blk_inv_def do_org_def write_abs_def error_def Let_def)

lemma blk_inv_do_chk_cur: "blk_inv s \<Longrightarrow> blk_inv (do_chk_cur v s)"
  by (simp add: blk_inv_def do_chk_cur_def write_abs_def error_def Let_def)

lemma blk_inv_do_chk_prev: "blk_inv s \<Longrightarrow> blk_inv (do_chk_prev v s)"
  by (simp add: blk_inv_def do_chk_prev_def write_abs_def error_def Let_def)

lemma blk_inv_do_byte: "blk_inv s \<Longrightarrow> blk_inv (do_byte v s)"
  by (simp add: blk_inv_def do_byte_def error_def Let_def)

lemma blk_inv_do_words: "blk_inv s \<Longrightarrow> blk_inv (do_words ws s)"
  by (simp add: blk_inv_def do_words_def write_le_def error_def Let_def)

lemmas blk_inv_branches = blk_inv_lnum blk_inv_error blk_inv_do_else blk_inv_do_endif
  blk_inv_do_if1 blk_inv_do_if0 blk_inv_do_ifdef blk_inv_do_define blk_inv_do_org
  blk_inv_do_chk_cur blk_inv_do_chk_prev blk_inv_do_byte blk_inv_do_words

lemma blk_inv_do_line: "blk_inv s \<Longrightarrow> blk_inv (do_line buf s)"
  by (rule do_line_cases) (simp_all add: blk_inv_branches)

lemma blk_inv_init: "blk_inv (init defs)"
  by (simp add: blk_inv_def init_def)

lemma blk_inv_main_loop: "blk_inv s \<Longrightarrow> blk_inv (main_loop bufs s)"
  unfolding main_loop_def
  by (induction bufs arbitrary: s) (simp_all add: blk_inv_do_line)

lemma data_blocks_write_abs:
  "blk_inv s \<Longrightarrow> data_blocks (out s) \<Longrightarrow> data_blocks (out (write_abs ABS_BLK s))"
  by (auto simp: blk_inv_def data_blocks_def write_abs_def Let_def)

lemma out_error: "out (error m s) = out s"
  by (simp add: error_def)

lemma data_blocks_do_line:
  assumes "blk_inv s" and "data_blocks (out s)"
  shows "data_blocks (out (do_line buf s))"
proof (rule do_line_cases)
  let ?s = "s\<lparr>lnum := lnum s + 1\<rparr>"
  have i: "blk_inv ?s" and d: "data_blocks (out ?s)"
    using assms by (simp_all add: blk_inv_lnum)
  show "data_blocks (out ?s)" by (rule d)
  show "data_blocks (out (do_else ?s))" using d by (simp add: do_else_def error_def)
  show "data_blocks (out (do_endif ?s))" using d by (simp add: do_endif_def error_def Let_def)
  show "data_blocks (out (do_if1 ?s))" using d by (simp add: do_if1_def Let_def)
  show "data_blocks (out (do_if0 ?s))" using d by (simp add: do_if0_def Let_def)
  show "data_blocks (out (do_ifdef x ?s))" for x using d by (simp add: do_ifdef_def Let_def)
  show "data_blocks (out (do_define x ?s))" for x using d by (simp add: do_define_def)
  show "data_blocks (out (error HashError ?s))" using d by (simp add: error_def)
  show "data_blocks (out (do_org v ?s))" for v
    using data_blocks_write_abs [OF i d] by (simp add: do_org_def Let_def error_def)
  have e: "blk_inv (error m ?s)" "data_blocks (out (error m ?s))" for m
    using i d by (simp_all add: blk_inv_error out_error)
  have e2: "blk_inv (error m (error m' ?s))" "data_blocks (out (error m (error m' ?s)))"
    for m m'
    using i d by (simp_all add: blk_inv_error out_error)
  show "data_blocks (out (do_chk_cur v ?s))" for v
    using data_blocks_write_abs [OF i d] data_blocks_write_abs [OF e]
      data_blocks_write_abs [OF e2]
    by (simp add: do_chk_cur_def Let_def)
  show "data_blocks (out (do_chk_prev v ?s))" for v
    using data_blocks_write_abs [OF i d] data_blocks_write_abs [OF e]
      data_blocks_write_abs [OF e2]
    by (simp add: do_chk_prev_def Let_def)
  show "data_blocks (out (do_byte v ?s))" for v
    using d by (simp add: do_byte_def error_def Let_def)
  show "data_blocks (out (do_words ws ?s))" for ws
    using d by (simp add: do_words_def write_le_def error_def Let_def)
qed

lemma data_blocks_main_loop:
  "blk_inv s \<Longrightarrow> data_blocks (out s) \<Longrightarrow> data_blocks (out (main_loop bufs s))"
  unfolding main_loop_def
  by (induction bufs arbitrary: s) (simp_all add: blk_inv_do_line data_blocks_do_line)

lemma flushed_empty: "blk_inv s \<Longrightarrow> data (write_abs ABS_BLK s) = []"
  by (simp add: blk_inv_def write_abs_def Let_def)

section \<open>Evaluating runs\<close>

lemma fgets_Cons:
  "0 < n \<Longrightarrow> fgets n (c # cs) =
     (if c = CHR 0x0A then ([c], cs) else (c # fst (fgets (n - 1) cs), snd (fgets (n - 1) cs)))"
  by (cases n) simp_all

lemmas run_simps = main_def main_loop_def init_def NBUF_def fgets_Cons do_line_def isspace_def
  conv_s_def conv_o_def is_odigit_def odigit_def sscanf_s_def sscanf_o_def sscanf_3o_def
  do_else_def do_endif_def do_if1_def do_if0_def do_ifdef_def do_define_def do_org_def
  do_chk_cur_def do_chk_prev_def do_byte_def write_le_def do_words_def error_def
  write_abs_def blk_bytes_def le_lo_def le_hi_def ABS_SIG_def HDR_LEN_def CKSUM_LEN_def Let_def

section \<open>Data lines\<close>

lemma words_shape:
  "1 \<le> length ws \<Longrightarrow> length ws \<le> 3 \<Longrightarrow>
     (\<exists>a. ws = [a]) \<or> (\<exists>a b. ws = [a, b]) \<or> (\<exists>a b c. ws = [a, b, c])"
  by (cases ws; cases "tl ws"; cases "tl (tl ws)"; cases "tl (tl (tl ws))") auto

lemma and_1_even: "((p::u4_t) AND 1 = 0) = even p"
  by (simp add: and_one_eq flip: even_iff_mod_2_eq_zero)

lemma even_pc_add2: "(p::u4_t) AND 1 = 0 \<Longrightarrow> (p + 2) AND 1 = 0"
  by (simp add: and_1_even)

lemma data_do_words:
  "1 \<le> length ws \<Longrightarrow> length ws \<le> 3 \<Longrightarrow>
     data (do_words ws s) = data s @ concat (map (\<lambda>W. [le_lo W, le_hi W]) ws)
     \<and> pc (do_words ws s) = pc s + 2 * of_nat (length ws)
     \<and> have_blk (do_words ws s)"
  using words_shape [of ws]
  by (auto simp: do_words_def write_le_def error_def Let_def)

lemma msgs_do_words:
  "1 \<le> length ws \<Longrightarrow> length ws \<le> 3 \<Longrightarrow>
     msgs (do_words ws s) = msgs s
       @ (if ws ! 0 > 0xFFFF then [(lnum s, RangeW0)] else [])
       @ (if 2 \<le> length ws \<and> ws ! 1 > 0xFFFF then [(lnum s, RangeW1)] else [])
       @ (if 3 \<le> length ws \<and> ws ! 2 > 0xFFFF then [(lnum s, RangeW2)] else [])
       @ (if pc s AND 1 \<noteq> 0 then [(lnum s, OddPc)] else [])"
  using words_shape [of ws]
  by (auto simp: do_words_def write_le_def error_def Let_def)

lemma unat_pc_advance:
  "n \<le> 3 \<Longrightarrow> unat (p::u4_t) + 2 * n < 2 ^ 32 \<Longrightarrow> unat (p + 2 * of_nat n) = unat p + 2 * n"
proof -
  assume n: "n \<le> 3" and b: "unat p + 2 * n < 2 ^ 32"
  have "unat (2 * of_nat n :: u4_t) = 2 * n"
    using n by (simp add: unat_word_ariths unat_of_nat)
  then show ?thesis
    using b unat_add_lem [of p "2 * of_nat n"] by simp
qed

section \<open>Conditionals\<close>

lemma find_def_le: "find_def d ds \<le> length ds"
  by (induction ds) simp_all

lemma find_def_length: "find_def d ds = length ds \<longleftrightarrow> d \<notin> set ds"
proof (induction ds)
  case Nil
  show ?case by simp
next
  case (Cons x ds)
  show ?case
  proof (cases "d = x")
    case True
    then show ?thesis by simp
  next
    case False
    then show ?thesis using Cons.IH by auto
  qed
qed

lemma or_and_self: "((x::u4_t) OR l) AND l = l"
  by (simp add: bit_eq_iff bit_simps)

lemma and_not_and_self: "((x::u4_t) AND NOT l) AND l = 0"
  by (simp add: bit_eq_iff bit_simps)

section \<open>The program counter\<close>

lemma le_ffff: "((p::u4_t) \<le> 0xFFFF) = (unat p \<le> 65535)"
  by (simp add: word_le_nat_alt)

lemma unat_pc_succ: "unat (p::u4_t) \<le> 65535 \<Longrightarrow> unat (p + 1) = unat p + 1"
  using unat_add_lem [of p 1] by simp

lemma pc_fields:
  "pc (s\<lparr>lnum := n\<rparr>) = pc s" "pc (error m s) = pc s" "pc (write_abs t s) = pc s"
  "pc (do_else s) = pc s" "pc (do_endif s) = pc s" "pc (do_if1 s) = pc s" "pc (do_if0 s) = pc s"
  "pc (do_ifdef d s) = pc s" "pc (do_define d s) = pc s"
  "pc (do_chk_cur v s) = pc s" "pc (do_chk_prev v s) = pc s"
  "pc (do_org v s) = v" "pc (do_byte v s) = pc s + 1"
  by (simp_all add: error_def write_abs_def do_else_def do_endif_def do_if1_def do_if0_def
      do_ifdef_def do_define_def do_chk_cur_def do_chk_prev_def do_org_def do_byte_def Let_def)

lemma msgs_do_org:
  "msgs (do_org v s) = msgs s @ (if v > 0xFFFF then [(lnum s, RangeNorg)] else [])"
  by (simp add: do_org_def write_abs_def error_def Let_def)

lemma msgs_do_words_syntax:
  "\<not> (1 \<le> length ws \<and> length ws \<le> 3) \<Longrightarrow> msgs (do_words ws s) = msgs s @ [(lnum s, SyntaxError)]"
  by (auto simp: do_words_def error_def Let_def)

lemma pc_do_line_quiet:
  assumes b: "unat (pc s) + 6 \<le> 65535" and q: "msgs (do_line buf s) = msgs s"
  shows "pc (do_line buf s) \<le> 0xFFFF"
proof -
  let ?s = "s\<lparr>lnum := lnum s + 1\<rparr>"
  have p: "pc s \<le> 0xFFFF" using b by (simp add: le_ffff)
  have "msgs (do_line buf s) = msgs s \<longrightarrow> pc (do_line buf s) \<le> 0xFFFF"
  proof (rule do_line_cases)
    show "msgs (do_org v ?s) = msgs s \<longrightarrow> pc (do_org v ?s) \<le> 0xFFFF" for v
      by (simp add: msgs_do_org pc_fields not_less)
    show "msgs (do_byte v ?s) = msgs s \<longrightarrow> pc (do_byte v ?s) \<le> 0xFFFF" for v
      using b by (simp add: pc_fields le_ffff unat_pc_succ)
    show "msgs (do_words ws ?s) = msgs s \<longrightarrow> pc (do_words ws ?s) \<le> 0xFFFF" for ws
    proof (cases "1 \<le> length ws \<and> length ws \<le> 3")
      case True
      then have "pc (do_words ws ?s) = pc s + 2 * of_nat (length ws)"
        using data_do_words [of ws ?s] by simp
      moreover have "unat (pc s + 2 * of_nat (length ws)) = unat (pc s) + 2 * length ws"
        using True b by (intro unat_pc_advance) simp_all
      ultimately show ?thesis using True b by (simp add: le_ffff)
    next
      case False
      then show ?thesis by (simp add: msgs_do_words_syntax)
    qed
  qed (simp_all add: pc_fields p)
  then show ?thesis using q by simp
qed

section \<open>A block of 65530 bytes\<close>

lemma read_lines_zeros:
  "read_lines (concat (replicate n ''000000\<newline>'')) = replicate n ''000000\<newline>''"
  by (induction n) (simp_all add: NBUF_def fgets_Cons)

lemma do_line_zero:
  "ignore_input s = 0 \<Longrightarrow> do_line ''000000\<newline>'' s = do_words [0] (s\<lparr>lnum := lnum s + 1\<rparr>)"
  by (simp add: do_line_def isspace_def conv_s_def conv_o_def is_odigit_def odigit_def
      sscanf_s_def sscanf_o_def sscanf_3o_def Let_def)

lemma do_words_zero:
  "pc s AND 1 = 0 \<Longrightarrow>
     do_words [0] s = s\<lparr>data := data s @ [0, 0], pc := pc s + 2, have_blk := True\<rparr>"
  by (simp add: do_words_def write_le_def le_lo_def le_hi_def Let_def)

lemma main_loop_zeros:
  "ignore_input s = 0 \<Longrightarrow> pc s AND 1 = 0 \<Longrightarrow>
     data (main_loop (replicate n ''000000\<newline>'') s) = data s @ replicate (2 * n) 0
   \<and> have_blk (main_loop (replicate n ''000000\<newline>'') s) = (have_blk s \<or> 0 < n)
   \<and> msgs (main_loop (replicate n ''000000\<newline>'') s) = msgs s
   \<and> out (main_loop (replicate n ''000000\<newline>'') s) = out s
   \<and> org (main_loop (replicate n ''000000\<newline>'') s) = org s"
proof (induction n arbitrary: s)
  case 0
  show ?case by (simp add: main_loop_def)
next
  case (Suc n)
  let ?t = "do_line ''000000\<newline>'' s"
  have t: "?t = s\<lparr>lnum := lnum s + 1, data := data s @ [0, 0], pc := pc s + 2, have_blk := True\<rparr>"
    using Suc.prems by (simp add: do_line_zero do_words_zero)
  have "ignore_input ?t = 0" "pc ?t AND 1 = 0"
    using Suc.prems by (simp_all add: t even_pc_add2)
  from Suc.IH [OF this]
  have "data (main_loop (replicate n ''000000\<newline>'') ?t) = data ?t @ replicate (2 * n) 0
      \<and> have_blk (main_loop (replicate n ''000000\<newline>'') ?t) = (have_blk ?t \<or> 0 < n)
      \<and> msgs (main_loop (replicate n ''000000\<newline>'') ?t) = msgs ?t
      \<and> out (main_loop (replicate n ''000000\<newline>'') ?t) = out ?t
      \<and> org (main_loop (replicate n ''000000\<newline>'') ?t) = org ?t" .
  moreover have "main_loop (replicate (Suc n) ''000000\<newline>'') s
                 = main_loop (replicate n ''000000\<newline>'') ?t"
    by (simp add: main_loop_def)
  moreover have "data ?t = data s @ [0, 0]" "have_blk ?t" "msgs ?t = msgs s" "out ?t = out s"
    "org ?t = org s"
    by (simp_all add: t)
  ultimately show ?case by simp
qed

lemma cksum_loop_zeros: "cksum_loop c (replicate n 0) = c"
  by (induction n arbitrary: c) simp_all

lemma blk_bytes_zeros:
  "blk_bytes 0 (replicate 65530 0) = [1, 0, 0, 0, 0, 0] @ replicate 65530 0 @ [0xFF]"
  by (simp add: blk_bytes_def cksum_loop_zeros le_lo_def le_hi_def ABS_SIG_def HDR_LEN_def
      CKSUM_LEN_def Let_def)

section \<open>Properties of the specification\<close>

text \<open>
  C2. For every set of \<open>--def\<close> symbols and every input text, the output ends with the
  halt block, written after the flush of the pending block at the end of the input. The
  halt block is \<open>blk_bytes 1 []\<close>: signature 1, length field 6 (no data byte), address
  field 1 (odd), checksum \<open>0xF8\<close>. Every block written before it carries at least one
  data byte, so the halt block is the only block without data, and the accumulator is
  empty when it is written.
\<close>

theorem halt_block_last:
  "let s = write_abs ABS_BLK (main_loop (read_lines txt) (init defs))
   in out (main defs txt) = out s @ [blk_bytes 1 []] \<and> data s = []
       \<and> blk_bytes 1 [] = [1, 0, 6, 0, 1, 0, 0xF8] \<and> data_blocks (out s)"
proof -
  let ?l = "main_loop (read_lines txt) (init defs)"
  define s where "s = write_abs ABS_BLK ?l"
  have i: "blk_inv ?l" by (simp add: blk_inv_main_loop blk_inv_init)
  have "data_blocks (out (init defs))" by (simp add: data_blocks_def init_def)
  then have d: "data_blocks (out ?l)" by (simp add: data_blocks_main_loop blk_inv_init)
  have e: "data s = []" unfolding s_def using i by (rule flushed_empty)
  have "main defs txt = write_abs ABS_HALT s" by (simp add: main_def s_def)
  then have "out (main defs txt) = out s @ [blk_bytes 1 []]"
    using e by (simp add: write_abs_def Let_def)
  moreover have "data_blocks (out s)" unfolding s_def using i d by (rule data_blocks_write_abs)
  ultimately show ?thesis using e halt_bytes by (simp add: s_def Let_def)
qed

text \<open>The run on \<open>= 1000\<close>, \<open>012345\<close>: one data block at origin 01000, then the halt block.\<close>

theorem halt_block_last_witness:
  "out (main [] ''= 1000\<newline>012345\<newline>'')
     = [[1, 0, 8, 0, 0, 2, 0xE5, 0x14, 0xFC], [1, 0, 6, 0, 1, 0, 0xF8]]
   \<and> data_blocks [[1, 0, 8, 0, 0, 2, 0xE5, 0x14, 0xFC]]"
proof -
  have "out (write_abs ABS_BLK (main_loop (read_lines ''= 1000\<newline>012345\<newline>'') (init [])))
        = [[1, 0, 8, 0, 0, 2, 0xE5, 0x14, 0xFC]]"
    by (simp add: run_simps)
  then show ?thesis
    using halt_block_last [of "''= 1000\<newline>012345\<newline>''" "[]"] by (simp add: Let_def)
qed

text \<open>
  C10. The pending-block invariant \<open>blk_inv\<close> (the flag \<open>have_blk\<close> is set exactly
  when the accumulator holds a byte, and with an empty accumulator \<open>org = pc\<close>) holds in
  the initial state, is preserved by every iteration of the main loop on any buffer, by
  \<open>write_abs\<close> of either kind and by each of the origin, check, byte and word branches,
  and so holds in every state that the loop reaches and at the end of \<open>main\<close>.
\<close>

theorem pending_block_invariant:
  "blk_inv (init defs)
   \<and> (blk_inv s \<longrightarrow> blk_inv (do_line buf s))
   \<and> (blk_inv s \<longrightarrow> blk_inv (write_abs type s))
   \<and> (blk_inv s \<longrightarrow> blk_inv (do_org v s) \<and> blk_inv (do_chk_cur v s) \<and> blk_inv (do_chk_prev v s)
         \<and> blk_inv (do_byte v s) \<and> blk_inv (do_words ws s))
   \<and> blk_inv (main_loop bufs (init defs))
   \<and> blk_inv (main defs txt)"
proof -
  have "blk_inv (main defs txt)"
    unfolding main_def by (intro blk_inv_write_abs blk_inv_main_loop blk_inv_init)
  then show ?thesis
    by (simp add: blk_inv_init blk_inv_do_line blk_inv_write_abs blk_inv_main_loop
        blk_inv_do_org blk_inv_do_chk_cur blk_inv_do_chk_prev blk_inv_do_byte blk_inv_do_words)
qed

text \<open>The invariant along the first data line of a run and the flush after it.\<close>

theorem pending_block_invariant_witness:
  "blk_inv (init [])
   \<and> blk_inv (do_line ''000001\<newline>'' (init []))
   \<and> have_blk (do_line ''000001\<newline>'' (init []))
   \<and> blk_inv (write_abs ABS_BLK (do_line ''000001\<newline>'' (init [])))
   \<and> \<not> have_blk (write_abs ABS_BLK (do_line ''000001\<newline>'' (init [])))"
proof -
  have a: "blk_inv (init [])"
    using pending_block_invariant [of "[]"] by simp
  have b: "blk_inv (do_line ''000001\<newline>'' (init []))"
    using a pending_block_invariant [of "[]" "init []" "''000001\<newline>''"] by simp
  have c: "blk_inv (write_abs ABS_BLK (do_line ''000001\<newline>'' (init [])))"
    using b pending_block_invariant [of "[]" "do_line ''000001\<newline>'' (init [])" "[]" ABS_BLK] by simp
  have d: "have_blk (do_line ''000001\<newline>'' (init []))"
    by (simp add: run_simps)
  have e: "\<not> have_blk (write_abs ABS_BLK (do_line ''000001\<newline>'' (init [])))"
    by (simp add: run_simps)
  show ?thesis using a b c d e by simp
qed

text \<open>
  C8. In a state where \<open>have_blk\<close> tells whether the accumulator holds a byte (every
  reachable state, by the invariant above), \<open>write_abs(ABS_BLK)\<close> with an empty
  accumulator returns the state unchanged, so nothing is written and \<open>pc\<close>, \<open>org\<close>,
  the accumulator and the error counter stay as they are; with a non-empty accumulator
  it writes one block, leaves the accumulator empty and sets \<open>org\<close> to the current
  \<open>pc\<close>.
\<close>

theorem flush_data:
  assumes "have_blk s \<longleftrightarrow> data s \<noteq> []"
  shows "(data s = [] \<longrightarrow> write_abs ABS_BLK s = s)
       \<and> (data s \<noteq> [] \<longrightarrow>
            data (write_abs ABS_BLK s) = [] \<and> \<not> have_blk (write_abs ABS_BLK s)
          \<and> org (write_abs ABS_BLK s) = pc s \<and> pc (write_abs ABS_BLK s) = pc s
          \<and> out (write_abs ABS_BLK s) = out s @ [blk_bytes (org s) (data s)])"
  using assms by (simp add: write_abs_def Let_def)

text \<open>The flush of the initial state, and the flush after the line \<open>b 5\<close>.\<close>

theorem flush_data_witness:
  "write_abs ABS_BLK (init []) = init []
   \<and> data (do_byte 5 (init [])) = [5]
   \<and> data (write_abs ABS_BLK (do_byte 5 (init []))) = []
   \<and> org (write_abs ABS_BLK (do_byte 5 (init []))) = 1
   \<and> pc (write_abs ABS_BLK (do_byte 5 (init []))) = 1
   \<and> out (write_abs ABS_BLK (do_byte 5 (init []))) = [[1, 0, 7, 0, 0, 0, 5, 0xF3]]"
proof -
  have a: "have_blk (init []) \<longleftrightarrow> data (init []) \<noteq> []" by (simp add: init_def)
  have b: "have_blk (do_byte 5 (init [])) \<longleftrightarrow> data (do_byte 5 (init [])) \<noteq> []"
    by (simp add: init_def do_byte_def)
  have c: "data (do_byte 5 (init [])) = [5]" "pc (do_byte 5 (init [])) = 1"
    "org (do_byte 5 (init [])) = 0" "out (do_byte 5 (init [])) = []"
    by (simp_all add: init_def do_byte_def)
  have d: "blk_bytes 0 [5] = [1, 0, 7, 0, 0, 0, 5, 0xF3]"
    by (simp add: run_simps)
  have e: "data (init []) = []" by (simp add: init_def)
  show ?thesis
    using flush_data [OF a] flush_data [OF b] c d e by simp
qed

text \<open>
  C1, as amended. Whenever \<open>write_abs\<close> writes a block (a halt block, or a data block
  with \<open>have_blk\<close> set), the bytes written are: signature bytes 1 and 0, a length
  field, an address field, the data bytes and one checksum byte. The length field holds
  the number of data bytes plus 6 modulo \<open>2 ^ 16\<close>, hence that number itself for a
  block of fewer than 65530 data bytes; the address field holds the block origin (1 for
  the halt block) modulo \<open>2 ^ 16\<close>, hence the origin itself when it is at most
  \<open>0177777\<close>; the sum of all bytes of the block is 0 modulo 256.
\<close>

theorem block_layout:
  assumes "type = ABS_HALT \<or> have_blk s"
  shows "let og = (if type = ABS_HALT then 1 else org s); d = data s; b = blk_bytes og d
         in out (write_abs type s) = out s @ [b]
          \<and> b = [1, 0, b ! 2, b ! 3, b ! 4, b ! 5] @ d @ [last b]
          \<and> le16 (b ! 2) (b ! 3) = (length d + 6) mod 65536
          \<and> (length d + 6 < 65536 \<longrightarrow> le16 (b ! 2) (b ! 3) = length d + 6)
          \<and> le16 (b ! 4) (b ! 5) = unat og mod 65536
          \<and> (og \<le> 0xFFFF \<longrightarrow> le16 (b ! 4) (b ! 5) = unat og)
          \<and> sum_list (map unat b) mod 256 = 0"
proof -
  define og where "og = (if type = ABS_HALT then 1 else org s)"
  define b where "b = blk_bytes og (data s)"
  have sh: "b = [1, 0, le_lo (of_nat (length (data s) + 6)), le_hi (of_nat (length (data s) + 6)),
                 le_lo og, le_hi og] @ data s @ [last b]"
    unfolding b_def by (rule blk_bytes_shape)
  have n: "b ! 2 = le_lo (of_nat (length (data s) + 6))" "b ! 3 = le_hi (of_nat (length (data s) + 6))"
    "b ! 4 = le_lo og" "b ! 5 = le_hi og"
    by (subst sh, simp)+
  have 1: "out (write_abs type s) = out s @ [b]"
    using assms by (auto simp: write_abs_def Let_def b_def og_def)
  have 2: "b = [1, 0, b ! 2, b ! 3, b ! 4, b ! 5] @ data s @ [last b]"
    using sh by (simp only: n)
  have 3: "le16 (b ! 2) (b ! 3) = (length (data s) + 6) mod 65536"
    by (simp only: n len_field)
  have 4: "le16 (b ! 4) (b ! 5) = unat og mod 65536"
    by (simp only: n le16_le)
  have 5: "le16 (b ! 4) (b ! 5) = unat og" if "og \<le> 0xFFFF"
  proof -
    have "unat og \<le> 65535" using that by (simp add: word_le_nat_alt)
    then show ?thesis by (simp add: 4)
  qed
  have 6: "sum_list (map unat b) mod 256 = 0"
    unfolding b_def by (rule blk_bytes_sum)
  show ?thesis
    using 1 2 3 4 5 6 by (simp add: Let_def og_def [symmetric] b_def [symmetric])
qed

text \<open>The block written for the line \<open>b 5\<close> at origin 0.\<close>

theorem block_layout_witness:
  "have_blk (do_byte 5 (init []))
   \<and> out (write_abs ABS_BLK (do_byte 5 (init []))) = [blk_bytes 0 [5]]
   \<and> blk_bytes 0 [5] = [1, 0, 7, 0, 0, 0, 5, 0xF3]
   \<and> le16 7 0 = 7 \<and> le16 0 0 = 0
   \<and> sum_list (map unat (blk_bytes 0 [5])) mod 256 = 0"
proof -
  have h: "ABS_BLK = ABS_HALT \<or> have_blk (do_byte 5 (init []))"
    by (simp add: do_byte_def init_def)
  have c: "data (do_byte 5 (init [])) = [5]" "org (do_byte 5 (init [])) = 0"
    "out (do_byte 5 (init [])) = []"
    by (simp_all add: init_def do_byte_def)
  have d: "blk_bytes 0 [5] = [1, 0, 7, 0, 0, 0, 5, 0xF3]"
    by (simp add: run_simps)
  show ?thesis
    using block_layout [OF h] h by (simp add: c d Let_def le16_def)
qed

text \<open>
  C1 as stated fails on a long block and on a block above \<open>0177777\<close>. The input
  of 32765 lines \<open>000000\<close> has no error and gives one data block of 65530 data bytes,
  which fits the \<open>NBLK\<close> bytes of \<open>blk.data\<close>: the number of data bytes plus 6 is
  65536, but the two bytes of the length field are 0 and 0. The input \<open>= 177776\<close>,
  \<open>000000\<close>, \<open>: 177776\<close>, \<open>b 1\<close> has no error either; its second data block
  starts at origin \<open>0200000\<close>, and the two bytes of its address field are 0 and 0.
\<close>

theorem block_fields_counterexample:
  "msgs (main [] (concat (replicate 32765 ''000000\<newline>''))) = []
   \<and> out (main [] (concat (replicate 32765 ''000000\<newline>'')))
       = [[1, 0, 0, 0, 0, 0] @ replicate 65530 0 @ [0xFF], [1, 0, 6, 0, 1, 0, 0xF8]]
   \<and> le16 0 0 \<noteq> 65530 + 6
   \<and> msgs (main [] ''= 177776\<newline>000000\<newline>: 177776\<newline>b 1\<newline>'') = []
   \<and> org (main_loop (read_lines ''= 177776\<newline>000000\<newline>: 177776\<newline>b 1\<newline>'') (init []))
       = 0x10000
   \<and> out (main [] ''= 177776\<newline>000000\<newline>: 177776\<newline>b 1\<newline>'')
       = [[1, 0, 8, 0, 0xFE, 0xFF, 0, 0, 0xFA], [1, 0, 7, 0, 0, 0, 1, 0xF7],
          [1, 0, 6, 0, 1, 0, 0xF8]]"
proof -
  let ?l = "main_loop (replicate 32765 ''000000\<newline>'') (init [])"
  have i: "ignore_input (init []) = 0" "pc (init []) AND 1 = 0"
    by (simp_all add: init_def)
  have l: "data ?l = replicate 65530 0" "have_blk ?l" "msgs ?l = []" "out ?l = []" "org ?l = 0"
    using main_loop_zeros [OF i, of 32765] by (simp_all add: init_def)
  have "main [] (concat (replicate 32765 ''000000\<newline>''))
        = write_abs ABS_HALT (write_abs ABS_BLK ?l)"
    by (simp only: main_def read_lines_zeros)
  then have a: "msgs (main [] (concat (replicate 32765 ''000000\<newline>''))) = []"
    "out (main [] (concat (replicate 32765 ''000000\<newline>'')))
       = [[1, 0, 0, 0, 0, 0] @ replicate 65530 0 @ [0xFF], [1, 0, 6, 0, 1, 0, 0xF8]]"
    by (simp_all add: write_abs_def Let_def l blk_bytes_zeros halt_bytes)
  have b: "main_loop (read_lines ''= 177776\<newline>000000\<newline>: 177776\<newline>b 1\<newline>'') (init [])
           = \<lparr>lnum = 4, errs = 0, rm = False, msgs = [], have_blk = True, data = [1],
              org = 0x10000, pc = 0x10001, out = [[1, 0, 8, 0, 0xFE, 0xFF, 0, 0, 0xFA]],
              ifdefs = [], lvl = 1, inside_if = 0, ignore_input = 0\<rparr>"
    by (simp add: run_simps)
  have c: "msgs (main [] ''= 177776\<newline>000000\<newline>: 177776\<newline>b 1\<newline>'') = []"
    "out (main [] ''= 177776\<newline>000000\<newline>: 177776\<newline>b 1\<newline>'')
       = [[1, 0, 8, 0, 0xFE, 0xFF, 0, 0, 0xFA], [1, 0, 7, 0, 0, 0, 1, 0xF7],
          [1, 0, 6, 0, 1, 0, 0xF8]]"
    unfolding main_def b
    by (simp_all add: write_abs_def blk_bytes_def le_lo_def le_hi_def ABS_SIG_def HDR_LEN_def
        CKSUM_LEN_def Let_def)
  have d: "org (main_loop (read_lines ''= 177776\<newline>000000\<newline>: 177776\<newline>b 1\<newline>'') (init []))
           = 0x10000"
    by (subst b) simp
  show ?thesis using a c d by (simp add: le16_def del: read_lines.simps)
qed

text \<open>
  C3. A data-word line with one, two or three values, each at most \<open>0177777\<close>, read
  at an even \<open>pc\<close>, appends for each value \<open>W\<close> exactly the two bytes \<open>W & 0xFF\<close>
  and \<open>(W >> 8) & 0xFF\<close>, in this order and in the order of the values, adds 2 to
  \<open>pc\<close> for each value (in the 32-bit arithmetic of \<open>u4_t\<close>, which is the plain sum
  unless it passes \<open>2 ^ 32\<close>), and reports no error.
\<close>

theorem word_line_appends:
  assumes "1 \<le> length ws" and "length ws \<le> 3"
    and "\<forall>W \<in> set ws. W \<le> 0xFFFF" and "pc s AND 1 = 0"
  shows "data (do_words ws s)
           = data s @ concat (map (\<lambda>W. [ucast (W AND 0xFF), ucast (drop_bit 8 W AND 0xFF)]) ws)
       \<and> length (data (do_words ws s)) = length (data s) + 2 * length ws
       \<and> pc (do_words ws s) = pc s + 2 * of_nat (length ws)
       \<and> (unat (pc s) + 2 * length ws < 2 ^ 32 \<longrightarrow>
            unat (pc (do_words ws s)) = unat (pc s) + 2 * length ws)
       \<and> msgs (do_words ws s) = msgs s \<and> errs (do_words ws s) = errs s"
proof -
  have d: "data (do_words ws s) = data s @ concat (map (\<lambda>W. [le_lo W, le_hi W]) ws)"
    and p: "pc (do_words ws s) = pc s + 2 * of_nat (length ws)"
    using data_do_words [OF assms(1,2)] by simp_all
  have l: "length (concat (map (\<lambda>W. [le_lo W, le_hi W]) ws)) = 2 * length ws"
    by (induction ws) simp_all
  have g: "\<not> ws ! 0 > 0xFFFF" "\<not> (2 \<le> length ws \<and> ws ! 1 > 0xFFFF)"
    "\<not> (3 \<le> length ws \<and> ws ! 2 > 0xFFFF)"
    using words_shape [OF assms(1,2)] assms(3) by (auto simp: not_less)
  have m: "msgs (do_words ws s) = msgs s"
    using msgs_do_words [OF assms(1,2), of s] g assms(4) by simp
  have e: "errs (do_words ws s) = errs s"
    using words_shape [OF assms(1,2)] assms(3,4)
    by (auto simp: do_words_def write_le_def error_def Let_def not_less [symmetric])
  have u: "unat (pc (do_words ws s)) = unat (pc s) + 2 * length ws"
    if "unat (pc s) + 2 * length ws < 2 ^ 32"
    using that assms(2) by (simp add: p unat_pc_advance)
  show ?thesis using d l p u m e by (simp add: le_lo_def le_hi_def)
qed

text \<open>The line \<open>012345 000001 177777\<close> at \<open>pc = 0\<close>.\<close>

theorem word_line_appends_witness:
  "data (do_words [0x14E5, 1, 0xFFFF] (init [])) = [0xE5, 0x14, 1, 0, 0xFF, 0xFF]
   \<and> pc (do_words [0x14E5, 1, 0xFFFF] (init [])) = 6
   \<and> unat (pc (do_words [0x14E5, 1, 0xFFFF] (init []))) = 6
   \<and> msgs (do_words [0x14E5, 1, 0xFFFF] (init [])) = []"
proof -
  have h: "1 \<le> length [0x14E5, 1, 0xFFFF :: u4_t]" "length [0x14E5, 1, 0xFFFF :: u4_t] \<le> 3"
    "\<forall>W \<in> set [0x14E5, 1, 0xFFFF :: u4_t]. W \<le> 0xFFFF" "pc (init []) AND 1 = 0"
    by (simp_all add: init_def)
  have i: "data (init []) = []" "pc (init []) = 0" "msgs (init []) = []"
    by (simp_all add: init_def)
  show ?thesis
    using word_line_appends [OF h] by (simp add: i)
qed

text \<open>
  C9. A byte line \<open>b V\<close> appends the byte \<open>V mod 256\<close> and adds 1 to \<open>pc\<close> whatever
  \<open>V\<close> is, and reports the range error exactly when \<open>V > 0377\<close>. A word line of one
  to three values appends each value as the two bytes of its low 16 bits, low byte first,
  and adds 2 to \<open>pc\<close> for each value, whatever the values and \<open>pc\<close> are; it reports a
  range error for each value above \<open>0177777\<close> and the parity error when \<open>pc\<close> is
  odd.
\<close>

theorem append_despite_errors:
  "data (do_byte V s) = data s @ [ucast V] \<and> unat (ucast V :: u1_t) = unat V mod 256
   \<and> pc (do_byte V s) = pc s + 1 \<and> have_blk (do_byte V s)
   \<and> msgs (do_byte V s) = msgs s @ (if V > 0xFF then [(lnum s, RangeB)] else [])
   \<and> (1 \<le> length ws \<and> length ws \<le> 3 \<longrightarrow>
        data (do_words ws s) = data s @ concat (map (\<lambda>W. [le_lo W, le_hi W]) ws)
      \<and> (\<forall>W \<in> set ws. le16 (le_lo W) (le_hi W) = unat W mod 65536)
      \<and> pc (do_words ws s) = pc s + 2 * of_nat (length ws)
      \<and> have_blk (do_words ws s)
      \<and> msgs (do_words ws s) = msgs s
           @ (if ws ! 0 > 0xFFFF then [(lnum s, RangeW0)] else [])
           @ (if 2 \<le> length ws \<and> ws ! 1 > 0xFFFF then [(lnum s, RangeW1)] else [])
           @ (if 3 \<le> length ws \<and> ws ! 2 > 0xFFFF then [(lnum s, RangeW2)] else [])
           @ (if pc s AND 1 \<noteq> 0 then [(lnum s, OddPc)] else []))"
proof -
  have b: "data (do_byte V s) = data s @ [ucast V]" "pc (do_byte V s) = pc s + 1"
    "have_blk (do_byte V s)"
    "msgs (do_byte V s) = msgs s @ (if V > 0xFF then [(lnum s, RangeB)] else [])"
    by (simp_all add: do_byte_def error_def Let_def)
  have u: "unat (ucast V :: u1_t) = unat V mod 256"
    by (simp add: unsigned_ucast_eq take_bit_eq_mod)
  show ?thesis
    using b u data_do_words [of ws s] msgs_do_words [of ws s] by (simp add: le16_le)
qed

text \<open>The line \<open>b 777\<close>, and the line \<open>0222505\<close> at \<open>pc = 1\<close>.\<close>

theorem append_despite_errors_witness:
  "data (do_byte 0x1FF (init [])) = [0xFF] \<and> pc (do_byte 0x1FF (init [])) = 1
   \<and> msgs (do_byte 0x1FF (init [])) = [(0, RangeB)]
   \<and> data (do_words [0x12345] (do_byte 0 (init []))) = [0, 0x45, 0x23]
   \<and> pc (do_words [0x12345] (do_byte 0 (init []))) = 3
   \<and> msgs (do_words [0x12345] (do_byte 0 (init []))) = [(0, RangeW0), (0, OddPc)]"
proof -
  have i: "data (init []) = []" "pc (init []) = 0" "msgs (init []) = []" "lnum (init []) = 0"
    by (simp_all add: init_def)
  have j: "data (do_byte 0 (init [])) = [0]" "pc (do_byte 0 (init [])) = 1"
    "msgs (do_byte 0 (init [])) = []" "lnum (do_byte 0 (init [])) = 0"
    using append_despite_errors [of 0 "init []" "[]"] by (simp_all add: i do_byte_def)
  show ?thesis
    using append_despite_errors [of "0x1FF" "init []" "[]"]
      append_despite_errors [of 0 "do_byte 0 (init [])" "[0x12345]"]
    by (simp add: i j le_lo_def le_hi_def)
qed

text \<open>
  C5. A \<open>:: V\<close> line reports the consistency error exactly when \<open>pc\<close> differs from
  \<open>V\<close>, and a \<open>: V\<close> line exactly when \<open>pc - 2\<close> (the 32-bit value) differs from
  \<open>V\<close>. Either way the run goes on with \<open>write_abs(ABS_BLK)\<close>: output, accumulator,
  flag and origin are those of flushing the state before the line, and \<open>pc\<close> is
  unchanged. The input \<open>= 0\<close>, \<open>000001\<close>, \<open>: 0\<close> reports no error at all.
\<close>

theorem consistency_checks:
  "msgs (do_chk_cur V s) = msgs s
       @ (if V > 0xFFFF then [(lnum s, RangeChkCur)] else [])
       @ (if pc s \<noteq> V then [(lnum s, ConsistencyCur)] else [])
   \<and> msgs (do_chk_prev V s) = msgs s
       @ (if V > 0xFFFF then [(lnum s, RangeChkPrev)] else [])
       @ (if pc s - 2 \<noteq> V then [(lnum s, ConsistencyPrev)] else [])
   \<and> out (do_chk_cur V s) = out (write_abs ABS_BLK s)
   \<and> data (do_chk_cur V s) = data (write_abs ABS_BLK s)
   \<and> have_blk (do_chk_cur V s) = have_blk (write_abs ABS_BLK s)
   \<and> org (do_chk_cur V s) = org (write_abs ABS_BLK s)
   \<and> pc (do_chk_cur V s) = pc s
   \<and> out (do_chk_prev V s) = out (write_abs ABS_BLK s)
   \<and> data (do_chk_prev V s) = data (write_abs ABS_BLK s)
   \<and> have_blk (do_chk_prev V s) = have_blk (write_abs ABS_BLK s)
   \<and> org (do_chk_prev V s) = org (write_abs ABS_BLK s)
   \<and> pc (do_chk_prev V s) = pc s
   \<and> msgs (main [] ''= 0\<newline>000001\<newline>: 0\<newline>'') = []"
proof -
  have "msgs (main [] ''= 0\<newline>000001\<newline>: 0\<newline>'') = []"
    by (simp add: run_simps)
  then show ?thesis
    by (simp add: do_chk_cur_def do_chk_prev_def write_abs_def error_def Let_def)
qed

text \<open>The four outcomes of a check after the word line \<open>000001\<close> at origin 0.\<close>

theorem consistency_checks_witness:
  "msgs (do_chk_cur 0 (do_words [1] (init []))) = [(0, ConsistencyCur)]
   \<and> msgs (do_chk_cur 2 (do_words [1] (init []))) = []
   \<and> msgs (do_chk_prev 0 (do_words [1] (init []))) = []
   \<and> msgs (do_chk_prev 2 (do_words [1] (init []))) = [(0, ConsistencyPrev)]
   \<and> data (do_chk_cur 0 (do_words [1] (init []))) = []
   \<and> data (do_chk_prev 2 (do_words [1] (init []))) = []"
proof -
  have i: "msgs (do_words [1] (init [])) = []" "pc (do_words [1] (init [])) = 2"
    "lnum (do_words [1] (init [])) = 0"
    "data (write_abs ABS_BLK (do_words [1] (init []))) = []"
    by (simp_all add: run_simps)
  show ?thesis
    using consistency_checks [of 0 "do_words [1] (init [])"]
      consistency_checks [of 2 "do_words [1] (init [])"]
    by (simp add: i)
qed

text \<open>
  C4, as amended. While the level bit can still be shifted left (\<open>lvl << 1\<close> is not
  0: at most 30 frames are open and no unmatched \<open>#endif\<close> has cleared \<open>lvl\<close>),
  \<open>#ifdef SYM\<close> opens a frame at the shifted level, and the frame is suppressed (its
  bit of \<open>ignore_input\<close> is set) exactly when \<open>SYM\<close> is not among the defined
  symbols at that moment. On the input \<open>#ifdef FOO\<close>, \<open>000001\<close>, \<open>#else\<close>,
  \<open>000002\<close>, \<open>#endif\<close> the run with \<open>FOO\<close> predefined writes the word 1 only,
  and the run without it the word 2 only.
\<close>

theorem ifdef_frame:
  assumes "push_bit 1 (lvl s) \<noteq> 0"
  shows "lvl (do_ifdef def_s s) = push_bit 1 (lvl s)
       \<and> inside_if (do_ifdef def_s s) AND lvl (do_ifdef def_s s) \<noteq> 0
       \<and> (ignore_input (do_ifdef def_s s) AND lvl (do_ifdef def_s s) \<noteq> 0 \<longleftrightarrow> def_s \<notin> set (ifdefs s))
       \<and> out (main [''FOO''] ''#ifdef FOO\<newline>000001\<newline>#else\<newline>000002\<newline>#endif\<newline>'')
           = [[1, 0, 8, 0, 0, 0, 1, 0, 0xF6], [1, 0, 6, 0, 1, 0, 0xF8]]
       \<and> out (main [] ''#ifdef FOO\<newline>000001\<newline>#else\<newline>000002\<newline>#endif\<newline>'')
           = [[1, 0, 8, 0, 0, 0, 2, 0, 0xF5], [1, 0, 6, 0, 1, 0, 0xF8]]"
proof -
  have a: "out (main [''FOO''] ''#ifdef FOO\<newline>000001\<newline>#else\<newline>000002\<newline>#endif\<newline>'')
           = [[1, 0, 8, 0, 0, 0, 1, 0, 0xF6], [1, 0, 6, 0, 1, 0, 0xF8]]"
    by (simp add: run_simps)
  have b: "out (main [] ''#ifdef FOO\<newline>000001\<newline>#else\<newline>000002\<newline>#endif\<newline>'')
           = [[1, 0, 8, 0, 0, 0, 2, 0, 0xF5], [1, 0, 6, 0, 1, 0, 0xF8]]"
    by (simp add: run_simps)
  show ?thesis
    using assms a b
    by (simp add: do_ifdef_def Let_def find_def_length or_and_self and_not_and_self)
qed

text \<open>\<open>#ifdef FOO\<close> and \<open>#ifdef BAR\<close> at top level with \<open>BAR\<close> predefined.\<close>

theorem ifdef_frame_witness:
  "push_bit 1 (lvl (init [''BAR''])) \<noteq> 0
   \<and> ignore_input (do_ifdef ''FOO'' (init [''BAR''])) AND lvl (do_ifdef ''FOO'' (init [''BAR''])) \<noteq> 0
   \<and> ignore_input (do_ifdef ''BAR'' (init [''BAR''])) AND lvl (do_ifdef ''BAR'' (init [''BAR''])) = 0"
proof -
  have h: "push_bit 1 (lvl (init [''BAR''])) \<noteq> 0" by (simp add: init_def)
  have i: "ifdefs (init [''BAR'']) = [''BAR'']" by (simp add: init_def)
  show ?thesis
    using h ifdef_frame [OF h, of "''FOO''"] ifdef_frame [OF h, of "''BAR''"] by (auto simp: i)
qed

text \<open>
  C4 as stated fails at depth 31. After 31 lines \<open>#if 1\<close> the level bit is
  \<open>0x80000000\<close>; \<open>#ifdef FOO\<close> shifts it out, so that no bit of \<open>ignore_input\<close> is
  set although \<open>FOO\<close> is not defined, and the word \<open>000001\<close> that follows is
  written. The run reports no error.
\<close>

theorem ifdef_frame_counterexample:
  "main [] (concat (replicate 31 ''#if 1\<newline>'') @ ''#ifdef FOO\<newline>000001\<newline>'')
     = \<lparr>lnum = 33, errs = 0, rm = False, msgs = [], have_blk = False, data = [],
        org = 2, pc = 2, out = [[1, 0, 8, 0, 0, 0, 1, 0, 0xF6], [1, 0, 6, 0, 1, 0, 0xF8]],
        ifdefs = [], lvl = 0, inside_if = 0xFFFFFFFE, ignore_input = 0\<rparr>"
  by code_simp

text \<open>
  C6. The program on an unmatched \<open>#endif\<close>: it reports the error, and it leaves
  \<open>lvl = 0\<close> instead of 1. From then on a shift of \<open>lvl\<close> gives 0 again, so
  \<open>#if 0\<close> suppresses nothing and the matching \<open>#endif\<close> is reported as a second
  error: the word inside \<open>#if 0\<close> ... \<open>#endif\<close> is written when an unmatched
  \<open>#endif\<close> came before, and is not written otherwise. An unmatched \<open>#else\<close> is
  reported and leaves \<open>lvl = 1\<close>.
\<close>

theorem unmatched_endif_disables_conditionals:
  "lvl (main [] ''#endif\<newline>'') = 0
   \<and> msgs (main [] ''#endif\<newline>'') = [(1, EndifWithoutIf)]
   \<and> out (main [] ''#if 0\<newline>000001\<newline>#endif\<newline>'') = [[1, 0, 6, 0, 1, 0, 0xF8]]
   \<and> msgs (main [] ''#if 0\<newline>000001\<newline>#endif\<newline>'') = []
   \<and> out (main [] ''#endif\<newline>#if 0\<newline>000001\<newline>#endif\<newline>'')
       = [[1, 0, 8, 0, 0, 0, 1, 0, 0xF6], [1, 0, 6, 0, 1, 0, 0xF8]]
   \<and> msgs (main [] ''#endif\<newline>#if 0\<newline>000001\<newline>#endif\<newline>'')
       = [(1, EndifWithoutIf), (4, EndifWithoutIf)]
   \<and> lvl (main [] ''#else\<newline>'') = 1
   \<and> msgs (main [] ''#else\<newline>'') = [(1, ElseNotInsideIf)]"
  by (simp add: run_simps)

text \<open>
  C7, as amended. \<open>write_abs\<close> and the two consistency checks leave \<open>pc\<close> as it is.
  An origin directive sets \<open>pc\<close> to its operand, which is at most \<open>0177777\<close> exactly
  when the directive reports no error. A byte line adds 1 and a word line adds 2 for each
  value, with no check: from a \<open>pc\<close> within the bound, the byte line stays within it
  unless \<open>pc = 0177777\<close>, and the word line exactly when \<open>pc\<close> plus the number of
  bytes appended is at most \<open>0177777\<close>. A line that reports no error, read at
  \<open>pc \<le> 0177771\<close>, leaves \<open>pc\<close> within the bound.
\<close>

theorem pc_updates:
  "pc (write_abs type s) = pc s
   \<and> pc (do_chk_cur V s) = pc s \<and> pc (do_chk_prev V s) = pc s
   \<and> pc (do_org V s) = V
   \<and> (V \<le> 0xFFFF \<longleftrightarrow> msgs (do_org V s) = msgs s)
   \<and> pc (do_byte V s) = pc s + 1
   \<and> (pc s \<le> 0xFFFF \<longrightarrow> (pc (do_byte V s) \<le> 0xFFFF \<longleftrightarrow> pc s \<noteq> 0xFFFF))
   \<and> (1 \<le> length ws \<and> length ws \<le> 3 \<longrightarrow> pc (do_words ws s) = pc s + 2 * of_nat (length ws))
   \<and> (1 \<le> length ws \<and> length ws \<le> 3 \<and> pc s \<le> 0xFFFF \<longrightarrow>
        (pc (do_words ws s) \<le> 0xFFFF \<longleftrightarrow> unat (pc s) + 2 * length ws \<le> 0xFFFF))
   \<and> (unat (pc s) + 6 \<le> 0xFFFF \<and> msgs (do_line buf s) = msgs s \<longrightarrow> pc (do_line buf s) \<le> 0xFFFF)"
proof -
  have o: "V \<le> 0xFFFF \<longleftrightarrow> msgs (do_org V s) = msgs s"
    by (auto simp: msgs_do_org not_less)
  have y: "pc (do_byte V s) \<le> 0xFFFF \<longleftrightarrow> pc s \<noteq> 0xFFFF" if "pc s \<le> 0xFFFF"
  proof -
    have u: "unat (pc s) \<le> 65535" using that by (simp add: le_ffff)
    have "pc s \<noteq> 0xFFFF \<longleftrightarrow> unat (pc s) \<noteq> 65535"
      by (simp add: word_unat_eq_iff)
    then show ?thesis using u by (auto simp: pc_fields le_ffff unat_pc_succ)
  qed
  have w: "pc (do_words ws s) = pc s + 2 * of_nat (length ws)"
    if "1 \<le> length ws \<and> length ws \<le> 3"
    using that data_do_words [of ws s] by simp
  have x: "pc (do_words ws s) \<le> 0xFFFF \<longleftrightarrow> unat (pc s) + 2 * length ws \<le> 0xFFFF"
    if "1 \<le> length ws \<and> length ws \<le> 3 \<and> pc s \<le> 0xFFFF"
  proof -
    have "unat (pc s) \<le> 65535" using that by (simp add: le_ffff)
    then have "unat (pc s + 2 * of_nat (length ws)) = unat (pc s) + 2 * length ws"
      using that by (intro unat_pc_advance) simp_all
    then show ?thesis using that by (simp add: w le_ffff)
  qed
  have z: "pc (do_line buf s) \<le> 0xFFFF"
    if "unat (pc s) + 6 \<le> 0xFFFF \<and> msgs (do_line buf s) = msgs s"
    using that pc_do_line_quiet [of s buf] by simp
  show ?thesis
    using o y w x z by (simp add: pc_fields)
qed

text \<open>Origin 01000 followed by a byte line, a word line of two values, and a text line.\<close>

theorem pc_updates_witness:
  "pc (do_org 0x200 (init [])) = 0x200
   \<and> pc (do_byte 0 (do_org 0x200 (init []))) = 0x201
   \<and> pc (do_byte 0 (do_org 0x200 (init []))) \<le> 0xFFFF
   \<and> pc (do_words [1, 2] (do_org 0x200 (init []))) = 0x204
   \<and> pc (do_words [1, 2] (do_org 0x200 (init []))) \<le> 0xFFFF
   \<and> pc (do_line ''000001\<newline>'' (do_org 0x200 (init []))) \<le> 0xFFFF"
proof -
  have i: "pc (do_org 0x200 (init [])) = 0x200" by (simp add: pc_fields)
  have m: "msgs (do_line ''000001\<newline>'' (do_org 0x200 (init []))) = msgs (do_org 0x200 (init []))"
    by (simp add: run_simps)
  show ?thesis
    using pc_updates [of ABS_BLK "do_org 0x200 (init [])" 0 "[1, 2]" "''000001\<newline>''"] m
    by (simp add: i)
qed

text \<open>
  C7 as stated fails for an append and for an origin directive: the input
  \<open>= 177777\<close>, \<open>b 0\<close> reports no error and ends with \<open>pc = 0200000\<close>, and the
  input \<open>= 200000\<close> reports the range error and ends with \<open>pc = 0200000\<close> as well.
\<close>

theorem pc_bound_counterexample:
  "msgs (main [] ''= 177777\<newline>b 0\<newline>'') = []
   \<and> pc (main [] ''= 177777\<newline>b 0\<newline>'') = 0x10000
   \<and> \<not> pc (main [] ''= 177777\<newline>b 0\<newline>'') \<le> 0xFFFF
   \<and> msgs (main [] ''= 200000\<newline>'') = [(1, RangeNorg)]
   \<and> pc (main [] ''= 200000\<newline>'') = 0x10000"
  by (simp add: run_simps)

end
